theory Spec2Isabelle
  imports Main "HOL-Library.Product_Lexorder"
begin

section \<open>The Minesweeper knowledge base (src/Knowledge/minesweeper/minesweeper.py)\<close>

text \<open>
  A cell is a pair \<open>(i, j)\<close> of Python integers. Python sets of cells are HOL sets, and
  every set the code builds is finite. Where the source iterates over a set
  (\<open>for cell in known_safes_cells\<close>) the model walks the set in lexicographic order
  (\<open>sorted_list_of_set\<close>); \<open>fold_mark_safe_order\<close> and \<open>fold_mark_mine_order\<close> below show
  that the result does not depend on that order.
\<close>

type_synonym cell = "int \<times> int"

subsection \<open>class Sentence\<close>

record sentence =
  cells :: "cell set"
  count :: int

text \<open>\<open>Sentence.__eq__\<close> compares \<open>cells\<close> and \<open>count\<close>: it is HOL equality on the record.\<close>

definition known_mines :: "sentence \<Rightarrow> cell set" where
  "known_mines s = (if int (card (cells s)) = count s then cells s else {})"

definition known_safes :: "sentence \<Rightarrow> cell set" where
  "known_safes s = (if count s = 0 then cells s else {})"

definition Sentence_mark_mine :: "sentence \<Rightarrow> cell \<Rightarrow> sentence" where
  "Sentence_mark_mine s c =
     (if c \<in> cells s then s\<lparr>cells := cells s - {c}, count := count s - 1\<rparr> else s)"

definition Sentence_mark_safe :: "sentence \<Rightarrow> cell \<Rightarrow> sentence" where
  "Sentence_mark_safe s c =
     (if c \<in> cells s then s\<lparr>cells := cells s - {c}\<rparr> else s)"

subsection \<open>class MinesweeperAI\<close>

record ai =
  height :: int
  width :: int
  moves_made :: "cell set"
  mines :: "cell set"
  safes :: "cell set"
  knowledge :: "sentence list"

text \<open>\<open>MinesweeperAI.__init__\<close>.\<close>

definition init_ai :: "int \<Rightarrow> int \<Rightarrow> ai" where
  "init_ai h w =
     \<lparr>height = h, width = w, moves_made = {}, mines = {}, safes = {}, knowledge = []\<rparr>"

text \<open>
  \<open>MinesweeperAI.mark_mine\<close> and \<open>mark_safe\<close>: add the cell to the set, then call the
  sentence's method on every sentence of the list, in place.
\<close>

definition mark_mine :: "ai \<Rightarrow> cell \<Rightarrow> ai" where
  "mark_mine st c =
     st\<lparr>mines := insert c (mines st),
        knowledge := map (\<lambda>s. Sentence_mark_mine s c) (knowledge st)\<rparr>"

definition mark_safe :: "ai \<Rightarrow> cell \<Rightarrow> ai" where
  "mark_safe st c =
     st\<lparr>safes := insert c (safes st),
        knowledge := map (\<lambda>s. Sentence_mark_safe s c) (knowledge st)\<rparr>"

subsection \<open>add_knowledge, steps 1 to 3: the new sentence\<close>

text \<open>
  The pairs \<open>(i, j)\<close> visited by
  \<open>for i in range(cell[0] - 1, cell[0] + 2): for j in range(cell[1] - 1, cell[1] + 2)\<close>,
  in the order of the visit.
\<close>

definition nearby_range :: "cell \<Rightarrow> cell list" where
  "nearby_range c =
     concat (map (\<lambda>i. map (\<lambda>j. (i, j)) [snd c - 1 .. snd c + 1]) [fst c - 1 .. fst c + 1])"

text \<open>The test \<open>0 <= i < self.height and 0 <= j < self.width\<close>.\<close>

definition in_bounds :: "int \<Rightarrow> int \<Rightarrow> cell \<Rightarrow> bool" where
  "in_bounds h w ij = (0 \<le> fst ij \<and> fst ij < h \<and> 0 \<le> snd ij \<and> snd ij < w)"

text \<open>
  One turn of the inner loop body (lines 216 to 226) on the pair \<open>ij\<close>; the accumulator
  is \<open>(nearby_cells, count)\<close>.
\<close>

definition nearby_step :: "ai \<Rightarrow> cell \<Rightarrow> cell \<Rightarrow> cell set \<times> int \<Rightarrow> cell set \<times> int" where
  "nearby_step st c ij acc =
     (if ij = c then acc
      else if in_bounds (height st) (width st) ij then
        (if ij \<notin> moves_made st \<and> ij \<notin> mines st then (insert ij (fst acc), snd acc)
         else if ij \<in> mines st then (fst acc, snd acc - 1)
         else acc)
      else acc)"

text \<open>
  Lines 228 to 232: the sentence is appended when its cell set is not empty and no equal
  sentence is in the list.
\<close>

definition add_sentence :: "ai \<Rightarrow> cell set \<times> int \<Rightarrow> ai" where
  "add_sentence st acc =
     (if fst acc \<noteq> {} then
        (let new_sentence = \<lparr>cells = fst acc, count = snd acc\<rparr>
         in if new_sentence \<notin> set (knowledge st)
            then st\<lparr>knowledge := knowledge st @ [new_sentence]\<rparr>
            else st)
      else st)"

text \<open>Lines 201 to 232: steps 1, 2 and 3.\<close>

definition observe :: "ai \<Rightarrow> cell \<Rightarrow> int \<Rightarrow> ai" where
  "observe st c n =
     (let st1 = st\<lparr>moves_made := insert c (moves_made st)\<rparr>;
          st2 = mark_safe st1 c;
          acc = fold (nearby_step st2 c) (nearby_range c) ({}, n)
      in add_sentence st2 acc)"

subsection \<open>add_knowledge, the body of the \<open>while True\<close> loop\<close>

text \<open>
  Lines 238 to 244, for the sentence at position \<open>i\<close> of the list. The sentence is read
  from the current state, since earlier turns have changed it in place; its known safes
  are copied and marked, then its known mines are computed (after the safes were
  marked), copied and marked.
\<close>

definition infer_sentence :: "ai \<Rightarrow> nat \<Rightarrow> ai" where
  "infer_sentence st i =
     (let known_safes_cells = known_safes (knowledge st ! i);
          st1 = fold (\<lambda>c s. mark_safe s c) (sorted_list_of_set known_safes_cells) st;
          known_mines_cells = known_mines (knowledge st1 ! i)
      in fold (\<lambda>c s. mark_mine s c) (sorted_list_of_set known_mines_cells) st1)"

definition infer_cells :: "ai \<Rightarrow> ai" where
  "infer_cells st = fold (\<lambda>i s. infer_sentence s i) [0..<length (knowledge st)] st"

text \<open>Line 247: remove empty sentences.\<close>

definition remove_empty :: "ai \<Rightarrow> ai" where
  "remove_empty st = st\<lparr>knowledge := filter (\<lambda>x. card (cells x) \<noteq> 0) (knowledge st)\<rparr>"

text \<open>
  Lines 254 to 263. \<open>knowledge_copy\<close> holds the same objects as the list, each once, so
  \<open>sentence1 is sentence2\<close> holds exactly when the two positions are the same. The
  accumulator is \<open>(self.knowledge, new)\<close>.
\<close>

definition subset_step ::
  "(nat \<times> sentence) \<times> (nat \<times> sentence) \<Rightarrow> sentence list \<times> bool \<Rightarrow> sentence list \<times> bool" where
  "subset_step p acc =
     (let sentence1 = snd (fst p); sentence2 = snd (snd p)
      in if fst (fst p) = fst (snd p) then acc
         else if cells sentence1 \<subseteq> cells sentence2 then
           (fst acc @ [\<lparr>cells = cells sentence2 - cells sentence1,
                        count = count sentence2 - count sentence1\<rparr>], True)
         else acc)"

definition infer_subsets :: "ai \<Rightarrow> ai \<times> bool" where
  "infer_subsets st =
     (let knowledge_copy = enumerate 0 (knowledge st);
          acc = fold subset_step (List.product knowledge_copy knowledge_copy)
                  (knowledge st, False)
      in (st\<lparr>knowledge := fst acc\<rparr>, snd acc))"

text \<open>
  How a turn of a loop body ends: it falls through to the next turn, or it returns a
  value from the function.
\<close>

datatype 'a exit = Continue | Return 'a

text \<open>
  Lines 235 to 263, one pass: \<open>new = False\<close>, the inferences from single sentences,
  the removal of empty sentences, the inferences from pairs. The result is the state
  and \<open>new\<close>.
\<close>

definition closure_pass :: "ai \<Rightarrow> ai \<times> bool" where
  "closure_pass st = infer_subsets (remove_empty (infer_cells st))"

text \<open>The body of the loop: the pass, then line 265, \<open>return new\<close>.\<close>

definition loop_body :: "ai \<Rightarrow> ai \<times> bool exit" where
  "loop_body st = (let r = closure_pass st in (fst r, Return (snd r)))"

text \<open>
  The loop \<open>while True\<close>: it runs the body, and runs it again for as long as the body
  falls through. A loop that never returns has the value \<open>None\<close>.
\<close>

partial_function (option) while_True :: "ai \<Rightarrow> (ai \<times> bool) option" where
  "while_True st =
     (case loop_body st of
        (st', Return new) \<Rightarrow> Some (st', new)
      | (st', Continue) \<Rightarrow> while_True st')"

declare while_True.simps [code]

definition add_knowledge :: "ai \<Rightarrow> cell \<Rightarrow> int \<Rightarrow> (ai \<times> bool) option" where
  "add_knowledge st c n = while_True (observe st c n)"

subsection \<open>Sequences of calls\<close>

text \<open>
  The three operations that change the knowledge base, under the names of the
  specification: \<open>RecordObservation\<close> is \<open>add_knowledge\<close>, \<open>DeclareSafe\<close> is
  \<open>mark_safe\<close>, \<open>DeclareMine\<close> is \<open>mark_mine\<close>.
\<close>

datatype call = RecordObservation cell int | DeclareSafe cell | DeclareMine cell

fun apply_call :: "ai \<Rightarrow> call \<Rightarrow> ai option" where
  "apply_call st (RecordObservation c n) = map_option fst (add_knowledge st c n)"
| "apply_call st (DeclareSafe c) = Some (mark_safe st c)"
| "apply_call st (DeclareMine c) = Some (mark_mine st c)"

fun run :: "ai \<Rightarrow> call list \<Rightarrow> ai option" where
  "run st [] = Some st"
| "run st (x # xs) = (case apply_call st x of None \<Rightarrow> None | Some st' \<Rightarrow> run st' xs)"

subsection \<open>class Minesweeper: the board\<close>

text \<open>
  The board is the set of the cells \<open>(i, j)\<close> with \<open>self.board[i][j]\<close> true, on a grid
  of \<open>h\<close> rows and \<open>w\<close> columns. \<open>Minesweeper.nearby_mines\<close> counts the mines among the
  cells in bounds around a cell, with the same two loops as \<open>add_knowledge\<close>;
  \<open>nearby_mines_step\<close> is one turn of the inner loop body (lines 70 to 77).
\<close>

definition nearby_mines_step :: "int \<Rightarrow> int \<Rightarrow> cell set \<Rightarrow> cell \<Rightarrow> cell \<Rightarrow> int \<Rightarrow> int" where
  "nearby_mines_step h w board c ij cnt =
     (if ij = c then cnt
      else if in_bounds h w ij then (if ij \<in> board then cnt + 1 else cnt)
      else cnt)"

definition nearby_mines :: "int \<Rightarrow> int \<Rightarrow> cell set \<Rightarrow> cell \<Rightarrow> int" where
  "nearby_mines h w board c = fold (nearby_mines_step h w board c) (nearby_range c) 0"

text \<open>
  A call agrees with a board when it says what the board says: an observation is made on
  a cell without a mine and reports \<open>nearby_mines\<close>, a cell declared safe has no mine, a
  cell declared a mine has one.
\<close>

fun truthful :: "int \<Rightarrow> int \<Rightarrow> cell set \<Rightarrow> call \<Rightarrow> bool" where
  "truthful h w board (RecordObservation c n) = (c \<notin> board \<and> n = nearby_mines h w board c)"
| "truthful h w board (DeclareSafe c) = (c \<notin> board)"
| "truthful h w board (DeclareMine c) = (c \<in> board)"

text \<open>
  A knowledge base agrees with a board when its mines are mines of the board, its safe
  cells and its moves are not, and every sentence counts the mines of the board among
  its cells.
\<close>

definition true_sentence :: "cell set \<Rightarrow> sentence \<Rightarrow> bool" where
  "true_sentence board s = (finite (cells s) \<and> count s = int (card (cells s \<inter> board)))"

definition consistent :: "cell set \<Rightarrow> ai \<Rightarrow> bool" where
  "consistent board st =
     (mines st \<subseteq> board \<and> safes st \<inter> board = {} \<and> moves_made st \<inter> board = {} \<and>
      list_all (true_sentence board) (knowledge st))"

section \<open>Properties\<close>

subsection \<open>The order of iteration over a set of cells\<close>

text \<open>
  Marking the cells of a list one after the other has a closed form in the set of the
  list, so the two loops over a copied set (lines 240 to 241 and 243 to 244) give the
  same state in whatever order the set is walked.
\<close>

lemma Sentence_mark_safe_eq: "Sentence_mark_safe s c = s\<lparr>cells := cells s - {c}\<rparr>"
  by (simp add: Sentence_mark_safe_def)

lemma Sentence_mark_mine_eq:
  "Sentence_mark_mine s c =
     s\<lparr>cells := cells s - {c}, count := count s - (if c \<in> cells s then 1 else 0)\<rparr>"
  by (simp add: Sentence_mark_mine_def)

lemma fold_mark_safe_set:
  "fold (\<lambda>c s. mark_safe s c) cs st =
     st\<lparr>safes := safes st \<union> set cs,
        knowledge := map (\<lambda>s. s\<lparr>cells := cells s - set cs\<rparr>) (knowledge st)\<rparr>"
proof (induction cs arbitrary: st)
  case Nil
  then show ?case by simp
next
  case (Cons c cs)
  have d: "\<And>s::sentence. cells s - {c} - set cs = cells s - insert c (set cs)"
    by blast
  have "fold (\<lambda>c s. mark_safe s c) (c # cs) st = fold (\<lambda>c s. mark_safe s c) cs (mark_safe st c)"
    by simp
  also have "\<dots> = (mark_safe st c)\<lparr>safes := safes (mark_safe st c) \<union> set cs,
        knowledge := map (\<lambda>s. s\<lparr>cells := cells s - set cs\<rparr>) (knowledge (mark_safe st c))\<rparr>"
    by (rule Cons.IH)
  also have "\<dots> = st\<lparr>safes := safes st \<union> set (c # cs),
        knowledge := map (\<lambda>s. s\<lparr>cells := cells s - set (c # cs)\<rparr>) (knowledge st)\<rparr>"
    by (simp add: mark_safe_def Sentence_mark_safe_eq o_def d)
  finally show ?case .
qed

lemma card_Int_insert:
  assumes "c \<notin> set cs"
  shows "int (card (A \<inter> insert c (set cs))) =
           (if c \<in> A then 1 else 0) + int (card ((A - {c}) \<inter> set cs))"
proof -
  have fin: "finite (A \<inter> set cs)" by simp
  have eq: "(A - {c}) \<inter> set cs = A \<inter> set cs"
    using assms by blast
  show ?thesis
  proof (cases "c \<in> A")
    case True
    then have "A \<inter> insert c (set cs) = insert c (A \<inter> set cs)" by blast
    moreover have "c \<notin> A \<inter> set cs" using assms by simp
    ultimately show ?thesis using fin True by (simp add: eq)
  next
    case False
    then have "A \<inter> insert c (set cs) = A \<inter> set cs" by blast
    then show ?thesis using False by (simp add: eq)
  qed
qed

lemma fold_mark_mine_set:
  "distinct cs \<Longrightarrow>
   fold (\<lambda>c s. mark_mine s c) cs st =
     st\<lparr>mines := mines st \<union> set cs,
        knowledge := map (\<lambda>s. s\<lparr>cells := cells s - set cs,
                                 count := count s - int (card (cells s \<inter> set cs))\<rparr>)
                       (knowledge st)\<rparr>"
proof (induction cs arbitrary: st)
  case Nil
  then show ?case by simp
next
  case (Cons c cs)
  have d: "\<And>s::sentence. cells s - {c} - set cs = cells s - insert c (set cs)"
    by blast
  have "c \<notin> set cs" using Cons.prems by simp
  then have k: "\<And>s::sentence. int (card (cells s \<inter> insert c (set cs))) =
           (if c \<in> cells s then 1 else 0) + int (card ((cells s - {c}) \<inter> set cs))"
    by (rule card_Int_insert)
  have "fold (\<lambda>c s. mark_mine s c) (c # cs) st = fold (\<lambda>c s. mark_mine s c) cs (mark_mine st c)"
    by simp
  also have "\<dots> = (mark_mine st c)\<lparr>mines := mines (mark_mine st c) \<union> set cs,
        knowledge := map (\<lambda>s. s\<lparr>cells := cells s - set cs,
                                 count := count s - int (card (cells s \<inter> set cs))\<rparr>)
                       (knowledge (mark_mine st c))\<rparr>"
    using Cons.prems by (intro Cons.IH) simp
  also have "\<dots> = st\<lparr>mines := mines st \<union> set (c # cs),
        knowledge := map (\<lambda>s. s\<lparr>cells := cells s - set (c # cs),
                                 count := count s - int (card (cells s \<inter> set (c # cs)))\<rparr>)
                       (knowledge st)\<rparr>"
    by (simp add: mark_mine_def Sentence_mark_mine_eq o_def d k)
  finally show ?case .
qed

lemma fold_mark_safe_order:
  "set cs = set cs' \<Longrightarrow> fold (\<lambda>c s. mark_safe s c) cs st = fold (\<lambda>c s. mark_safe s c) cs' st"
  by (simp add: fold_mark_safe_set)

lemma fold_mark_mine_order:
  "set cs = set cs' \<Longrightarrow> distinct cs \<Longrightarrow> distinct cs' \<Longrightarrow>
   fold (\<lambda>c s. mark_mine s c) cs st = fold (\<lambda>c s. mark_mine s c) cs' st"
  by (simp add: fold_mark_mine_set)

subsection \<open>The loop returns after one pass\<close>

lemma while_True_returns: "while_True st = Some (closure_pass st)"
  by (subst while_True.simps) (simp add: loop_body_def Let_def)

lemma add_knowledge_returns: "add_knowledge st c n = Some (closure_pass (observe st c n))"
  by (simp add: add_knowledge_def while_True_returns)

lemma apply_call_returns:
  "apply_call st x =
     Some (case x of RecordObservation c n \<Rightarrow> fst (closure_pass (observe st c n))
           | DeclareSafe c \<Rightarrow> mark_safe st c
           | DeclareMine c \<Rightarrow> mark_mine st c)"
  by (cases x) (simp_all add: add_knowledge_returns)

lemma run_returns: "\<exists>st'. run st calls = Some st'"
  by (induction calls arbitrary: st) (simp_all add: apply_call_returns)

text \<open>
  Claim C9: every call of \<open>add_knowledge\<close> (RecordObservation) returns, and so does every
  finite sequence of calls, from any state and for any cell and count. The loop
  \<open>while True\<close> ends in its first turn, at \<open>return new\<close>, so the number of passes is one.
\<close>

theorem add_knowledge_terminates:
  "(\<exists>st' new. add_knowledge st c n = Some (st', new)) \<and> (\<exists>st'. run st calls = Some st')"
proof
  obtain st' new where "closure_pass (observe st c n) = (st', new)"
    by (cases "closure_pass (observe st c n)")
  then show "\<exists>st' new. add_knowledge st c n = Some (st', new)"
    by (simp add: add_knowledge_returns)
next
  show "\<exists>st'. run st calls = Some st'"
    by (rule run_returns)
qed

subsection \<open>What mark_safe and mark_mine leave alone\<close>

text \<open>
  Claim C10: \<open>mark_safe\<close> (DeclareSafe) adds the cell to \<open>safes\<close> and changes nothing else
  but the contents of the sentences: \<open>moves_made\<close>, \<open>mines\<close>, the size of the grid and the
  number of sentences stay as they are. \<open>mark_mine\<close> (DeclareMine) does the same with
  \<open>mines\<close>, and leaves \<open>moves_made\<close> and \<open>safes\<close> as they are.
\<close>

theorem mark_safe_mark_mine_frame:
  "moves_made (mark_safe st c) = moves_made st \<and>
   mines (mark_safe st c) = mines st \<and>
   safes (mark_safe st c) = insert c (safes st) \<and>
   height (mark_safe st c) = height st \<and> width (mark_safe st c) = width st \<and>
   length (knowledge (mark_safe st c)) = length (knowledge st) \<and>
   moves_made (mark_mine st c) = moves_made st \<and>
   safes (mark_mine st c) = safes st \<and>
   mines (mark_mine st c) = insert c (mines st) \<and>
   height (mark_mine st c) = height st \<and> width (mark_mine st c) = width st \<and>
   length (knowledge (mark_mine st c)) = length (knowledge st)"
  by (simp add: mark_safe_def mark_mine_def)

subsection \<open>The new sentence of an observation\<close>

text \<open>
  The two loops of lines 213 to 226 in closed form: the new sentence holds the visited
  pairs, other than the cell, that are in bounds and neither in \<open>moves_made\<close> nor in
  \<open>mines\<close>, and the count goes down by one for each visited pair in bounds that is in
  \<open>mines\<close>. The set \<open>safes\<close> is not read.
\<close>

lemma fold_nearby_step_filter:
  "fold (nearby_step st c) xs acc =
     (fst acc \<union> set (filter (\<lambda>ij. ij \<noteq> c \<and> in_bounds (height st) (width st) ij \<and>
                                   ij \<notin> moves_made st \<and> ij \<notin> mines st) xs),
      snd acc - int (length (filter (\<lambda>ij. ij \<noteq> c \<and> in_bounds (height st) (width st) ij \<and>
                                         ij \<in> mines st) xs)))"
  by (induction xs arbitrary: acc) (auto simp: nearby_step_def)

subsection \<open>The knowledge base at the return of add_knowledge\<close>

text \<open>
  Claim C1 says that \<open>add_knowledge\<close> returns only after a pass that marks no cell and
  adds no sentence. On a grid of 3 by 3, after the observation of 1 mine around
  \<open>(0, 0)\<close>, the observation of 1 mine around \<open>(0, 1)\<close> returns \<open>True\<close> after its one pass:
  that pass has added the sentence \<open>{(0, 2), (1, 2)} = 0\<close>, and one more pass on the
  returned state marks \<open>(0, 2)\<close> and \<open>(1, 2)\<close> safe.
\<close>

theorem add_knowledge_returns_unstable:
  "run (init_ai 3 3) [RecordObservation (0, 0) 1] =
     Some \<lparr>height = 3, width = 3, moves_made = {(0, 0)}, mines = {}, safes = {(0, 0)},
           knowledge = [\<lparr>cells = {(0, 1), (1, 0), (1, 1)}, count = 1\<rparr>]\<rparr> \<and>
   add_knowledge
     \<lparr>height = 3, width = 3, moves_made = {(0, 0)}, mines = {}, safes = {(0, 0)},
      knowledge = [\<lparr>cells = {(0, 1), (1, 0), (1, 1)}, count = 1\<rparr>]\<rparr> (0, 1) 1 =
     Some (\<lparr>height = 3, width = 3, moves_made = {(0, 0), (0, 1)}, mines = {},
            safes = {(0, 0), (0, 1)},
            knowledge = [\<lparr>cells = {(1, 0), (1, 1)}, count = 1\<rparr>,
                         \<lparr>cells = {(0, 2), (1, 0), (1, 1), (1, 2)}, count = 1\<rparr>,
                         \<lparr>cells = {(0, 2), (1, 2)}, count = 0\<rparr>]\<rparr>, True) \<and>
   safes (fst (closure_pass
     \<lparr>height = 3, width = 3, moves_made = {(0, 0), (0, 1)}, mines = {},
      safes = {(0, 0), (0, 1)},
      knowledge = [\<lparr>cells = {(1, 0), (1, 1)}, count = 1\<rparr>,
                   \<lparr>cells = {(0, 2), (1, 0), (1, 1), (1, 2)}, count = 1\<rparr>,
                   \<lparr>cells = {(0, 2), (1, 2)}, count = 0\<rparr>]\<rparr>)) =
     {(0, 0), (0, 1), (0, 2), (1, 2)}"
  by (simp only: run.simps apply_call.simps add_knowledge_returns option.case option.map)
    code_simp

text \<open>
  Claim C2 says that when the knowledge base holds \<open>{(0, 0), (0, 1)} = 1\<close> and an
  observation adds \<open>{(0, 0), (0, 1), (0, 2)} = 2\<close>, the call returns with the sentence
  \<open>{(0, 2)} = 1\<close> derived and with \<open>(0, 2)\<close> among the mines. On a grid of 2 by 3 with
  \<open>(1, 2)\<close> declared a mine and 1 mine observed around \<open>(1, 0)\<close>, the observation of 3
  mines around \<open>(1, 1)\<close> adds the second sentence to the first; the call returns with the
  third sentence derived, and \<open>(0, 2)\<close> is not among the mines.
\<close>

theorem subset_inference_mine_not_marked:
  "run (init_ai 2 3) [DeclareMine (1, 2), RecordObservation (1, 0) 1] =
     Some \<lparr>height = 2, width = 3, moves_made = {(1, 0)}, mines = {(1, 2)}, safes = {(1, 0)},
           knowledge = [\<lparr>cells = {(0, 0), (0, 1), (1, 1)}, count = 1\<rparr>]\<rparr> \<and>
   knowledge (observe
     \<lparr>height = 2, width = 3, moves_made = {(1, 0)}, mines = {(1, 2)}, safes = {(1, 0)},
      knowledge = [\<lparr>cells = {(0, 0), (0, 1), (1, 1)}, count = 1\<rparr>]\<rparr> (1, 1) 3) =
     [\<lparr>cells = {(0, 0), (0, 1)}, count = 1\<rparr>,
      \<lparr>cells = {(0, 0), (0, 1), (0, 2)}, count = 2\<rparr>] \<and>
   add_knowledge
     \<lparr>height = 2, width = 3, moves_made = {(1, 0)}, mines = {(1, 2)}, safes = {(1, 0)},
      knowledge = [\<lparr>cells = {(0, 0), (0, 1), (1, 1)}, count = 1\<rparr>]\<rparr> (1, 1) 3 =
     Some (\<lparr>height = 2, width = 3, moves_made = {(1, 0), (1, 1)}, mines = {(1, 2)},
            safes = {(1, 0), (1, 1)},
            knowledge = [\<lparr>cells = {(0, 0), (0, 1)}, count = 1\<rparr>,
                         \<lparr>cells = {(0, 0), (0, 1), (0, 2)}, count = 2\<rparr>,
                         \<lparr>cells = {(0, 2)}, count = 1\<rparr>]\<rparr>, True)"
  by (simp only: run.simps apply_call.simps add_knowledge_returns option.case option.map)
    code_simp

text \<open>
  Claim C3 says that the new sentence leaves out the neighbours that are in
  \<open>moves_made\<close> or in \<open>safes\<close>. On a grid of 3 by 3, the observation of no mine around
  \<open>(0, 0)\<close> marks \<open>(0, 1)\<close>, \<open>(1, 0)\<close> and \<open>(1, 1)\<close> safe; the sentence that steps 1 to 3
  then build for 1 mine around \<open>(0, 1)\<close> holds \<open>(1, 0)\<close> and \<open>(1, 1)\<close>, which are safe and
  are not moves.
\<close>

theorem new_sentence_keeps_safe_cells:
  "run (init_ai 3 3) [RecordObservation (0, 0) 0] =
     Some \<lparr>height = 3, width = 3, moves_made = {(0, 0)}, mines = {},
           safes = {(0, 0), (0, 1), (1, 0), (1, 1)}, knowledge = []\<rparr> \<and>
   observe
     \<lparr>height = 3, width = 3, moves_made = {(0, 0)}, mines = {},
      safes = {(0, 0), (0, 1), (1, 0), (1, 1)}, knowledge = []\<rparr> (0, 1) 1 =
     \<lparr>height = 3, width = 3, moves_made = {(0, 0), (0, 1)}, mines = {},
      safes = {(0, 0), (0, 1), (1, 0), (1, 1)},
      knowledge = [\<lparr>cells = {(0, 2), (1, 0), (1, 1), (1, 2)}, count = 1\<rparr>]\<rparr>"
  by (simp only: run.simps apply_call.simps add_knowledge_returns option.case option.map)
    code_simp

text \<open>
  Claim C4 says that after every call no sentence holds a cell of \<open>safes\<close> or of
  \<open>mines\<close>. On a grid of 3 by 3, after the observations of no mine around \<open>(0, 0)\<close> and
  of 1 mine around \<open>(0, 1)\<close>, the one sentence of the knowledge base holds the safe cells
  \<open>(1, 0)\<close> and \<open>(1, 1)\<close>.
\<close>

theorem sentence_holds_safe_cells_after_call:
  "run (init_ai 3 3) [RecordObservation (0, 0) 0, RecordObservation (0, 1) 1] =
     Some \<lparr>height = 3, width = 3, moves_made = {(0, 0), (0, 1)}, mines = {},
           safes = {(0, 0), (0, 1), (1, 0), (1, 1)},
           knowledge = [\<lparr>cells = {(0, 2), (1, 0), (1, 1), (1, 2)}, count = 1\<rparr>]\<rparr>"
  by (simp only: run.simps apply_call.simps add_knowledge_returns option.case option.map)
    code_simp

text \<open>
  Claim C5 says that a sentence derived from a pair is added only when no equal sentence
  is in the list. On a grid of 2 by 6, the observations of 1 mine around \<open>(0, 0)\<close> and of
  2 mines around \<open>(0, 1)\<close> derive \<open>{(0, 2), (1, 2)} = 1\<close>; the next call, for 1 mine
  around \<open>(0, 5)\<close>, appends that sentence again, and a second copy of
  \<open>{(1, 0), (1, 1)} = 1\<close>.
\<close>

theorem derived_sentence_appended_twice:
  "run (init_ai 2 6) [RecordObservation (0, 0) 1, RecordObservation (0, 1) 2] =
     Some \<lparr>height = 2, width = 6, moves_made = {(0, 0), (0, 1)}, mines = {},
           safes = {(0, 0), (0, 1)},
           knowledge = [\<lparr>cells = {(1, 0), (1, 1)}, count = 1\<rparr>,
                        \<lparr>cells = {(0, 2), (1, 0), (1, 1), (1, 2)}, count = 2\<rparr>,
                        \<lparr>cells = {(0, 2), (1, 2)}, count = 1\<rparr>]\<rparr> \<and>
   run (init_ai 2 6)
     [RecordObservation (0, 0) 1, RecordObservation (0, 1) 2, RecordObservation (0, 5) 1] =
     Some \<lparr>height = 2, width = 6, moves_made = {(0, 0), (0, 1), (0, 5)}, mines = {},
           safes = {(0, 0), (0, 1), (0, 5)},
           knowledge = [\<lparr>cells = {(1, 0), (1, 1)}, count = 1\<rparr>,
                        \<lparr>cells = {(0, 2), (1, 0), (1, 1), (1, 2)}, count = 2\<rparr>,
                        \<lparr>cells = {(0, 2), (1, 2)}, count = 1\<rparr>,
                        \<lparr>cells = {(0, 4), (1, 4), (1, 5)}, count = 1\<rparr>,
                        \<lparr>cells = {(0, 2), (1, 2)}, count = 1\<rparr>,
                        \<lparr>cells = {(1, 0), (1, 1)}, count = 1\<rparr>]\<rparr>"
  by (simp only: run.simps apply_call.simps add_knowledge_returns option.case option.map)
    code_simp

text \<open>
  Claim C6 says that no sentence with an empty cell set is in the list when
  \<open>add_knowledge\<close> returns. On a grid of 3 by 3, after the observations of 1 mine around
  \<open>(0, 0)\<close>, 1 mine around \<open>(0, 1)\<close> and no mine around \<open>(2, 2)\<close>, the list holds two
  sentences with the cells \<open>{(1, 0)}\<close>, and the two empty sentences derived from that
  pair after the empty sentences were removed.
\<close>

theorem empty_sentences_at_return:
  "run (init_ai 3 3)
     [RecordObservation (0, 0) 1, RecordObservation (0, 1) 1, RecordObservation (2, 2) 0] =
     Some \<lparr>height = 3, width = 3, moves_made = {(0, 0), (0, 1), (2, 2)}, mines = {},
           safes = {(0, 0), (0, 1), (0, 2), (1, 1), (1, 2), (2, 1), (2, 2)},
           knowledge = [\<lparr>cells = {(1, 0)}, count = 1\<rparr>, \<lparr>cells = {(1, 0)}, count = 1\<rparr>,
                        \<lparr>cells = {}, count = 0\<rparr>, \<lparr>cells = {}, count = 0\<rparr>]\<rparr>"
  by (simp only: run.simps apply_call.simps add_knowledge_returns option.case option.map)
    code_simp


subsection \<open>Calls that agree with a board\<close>

text \<open>
  Marking a cell that has no mine safe, or a cell that has a mine as a mine, keeps every
  sentence true of the board.
\<close>

lemma true_sentence_mark_safe:
  assumes "true_sentence board s" and "c \<notin> board"
  shows "true_sentence board (Sentence_mark_safe s c)"
proof -
  have "(cells s - {c}) \<inter> board = cells s \<inter> board"
    using assms(2) by blast
  then show ?thesis
    using assms(1) by (simp add: true_sentence_def Sentence_mark_safe_def)
qed

lemma true_sentence_mark_mine:
  assumes "true_sentence board s" and "c \<in> board"
  shows "true_sentence board (Sentence_mark_mine s c)"
proof (cases "c \<in> cells s")
  case False
  then show ?thesis
    using assms(1) by (simp add: Sentence_mark_mine_def)
next
  case True
  have fin: "finite (cells s \<inter> board)"
    using assms(1) by (simp add: true_sentence_def)
  have mem: "c \<in> cells s \<inter> board"
    using True assms(2) by simp
  have eq: "(cells s - {c}) \<inter> board = (cells s \<inter> board) - {c}"
    by blast
  have pos: "0 < card (cells s \<inter> board)"
    using fin mem by (auto simp: card_gt_0_iff)
  have "int (card ((cells s - {c}) \<inter> board)) = int (card (cells s \<inter> board)) - 1"
    using pos mem by (simp add: eq of_nat_diff)
  then show ?thesis
    using assms(1) True by (simp add: true_sentence_def Sentence_mark_mine_def)
qed

lemma consistent_mark_safe:
  "consistent board st \<Longrightarrow> c \<notin> board \<Longrightarrow> consistent board (mark_safe st c)"
  by (simp add: consistent_def mark_safe_def list_all_iff true_sentence_mark_safe)

lemma consistent_mark_mine:
  "consistent board st \<Longrightarrow> c \<in> board \<Longrightarrow> consistent board (mark_mine st c)"
  by (simp add: consistent_def mark_mine_def list_all_iff true_sentence_mark_mine)

lemma consistent_fold_mark_safe:
  "consistent board st \<Longrightarrow> set cs \<inter> board = {} \<Longrightarrow>
   consistent board (fold (\<lambda>c s. mark_safe s c) cs st)"
  by (induction cs arbitrary: st) (auto simp: consistent_mark_safe)

lemma consistent_fold_mark_mine:
  "consistent board st \<Longrightarrow> set cs \<subseteq> board \<Longrightarrow>
   consistent board (fold (\<lambda>c s. mark_mine s c) cs st)"
  by (induction cs arbitrary: st) (auto simp: consistent_mark_mine)

lemma fold_mark_safe_frame:
  "length (knowledge (fold (\<lambda>c s. mark_safe s c) cs st)) = length (knowledge st) \<and>
   height (fold (\<lambda>c s. mark_safe s c) cs st) = height st \<and>
   width (fold (\<lambda>c s. mark_safe s c) cs st) = width st"
  by (induction cs arbitrary: st) (simp_all add: mark_safe_def)

lemma fold_mark_mine_frame:
  "length (knowledge (fold (\<lambda>c s. mark_mine s c) cs st)) = length (knowledge st) \<and>
   height (fold (\<lambda>c s. mark_mine s c) cs st) = height st \<and>
   width (fold (\<lambda>c s. mark_mine s c) cs st) = width st"
  by (induction cs arbitrary: st) (simp_all add: mark_mine_def)

lemma known_safes_no_mine:
  assumes "true_sentence board s"
  shows "set (sorted_list_of_set (known_safes s)) \<inter> board = {}"
proof (cases "count s = 0")
  case False
  then show ?thesis by (simp add: known_safes_def)
next
  case True
  then have "card (cells s \<inter> board) = 0" and "finite (cells s)"
    using assms by (simp_all add: true_sentence_def)
  then have "cells s \<inter> board = {}"
    by simp
  then show ?thesis
    using True \<open>finite (cells s)\<close> by (simp add: known_safes_def)
qed

lemma known_mines_all_mines:
  assumes "true_sentence board s"
  shows "set (sorted_list_of_set (known_mines s)) \<subseteq> board"
proof (cases "int (card (cells s)) = count s")
  case False
  then show ?thesis by (simp add: known_mines_def)
next
  case True
  have fin: "finite (cells s)"
    using assms by (simp add: true_sentence_def)
  have "card (cells s \<inter> board) = card (cells s)"
    using assms True by (simp add: true_sentence_def)
  then have "cells s \<inter> board = cells s"
    using fin by (intro card_subset_eq) auto
  then have "cells s \<subseteq> board"
    by blast
  then show ?thesis
    using True fin by (simp add: known_mines_def)
qed

lemma infer_sentence_frame:
  "length (knowledge (infer_sentence st i)) = length (knowledge st) \<and>
   height (infer_sentence st i) = height st \<and> width (infer_sentence st i) = width st"
  by (simp add: infer_sentence_def Let_def fold_mark_safe_frame fold_mark_mine_frame)

lemma consistent_nth:
  "consistent board st \<Longrightarrow> i < length (knowledge st) \<Longrightarrow> true_sentence board (knowledge st ! i)"
  by (simp add: consistent_def list_all_length)

lemma consistent_infer_sentence:
  assumes "consistent board st" and "i < length (knowledge st)"
  shows "consistent board (infer_sentence st i)"
proof -
  let ?st1 = "fold (\<lambda>c s. mark_safe s c) (sorted_list_of_set (known_safes (knowledge st ! i))) st"
  have c1: "consistent board ?st1"
    using assms by (intro consistent_fold_mark_safe known_safes_no_mine consistent_nth)
  have "i < length (knowledge ?st1)"
    using assms(2) by (simp add: fold_mark_safe_frame)
  with c1 have "true_sentence board (knowledge ?st1 ! i)"
    by (rule consistent_nth)
  with c1 show ?thesis
    unfolding infer_sentence_def Let_def
    by (intro consistent_fold_mark_mine known_mines_all_mines)
qed

lemma fold_infer_sentence:
  "consistent board st \<Longrightarrow> \<forall>i\<in>set is. i < length (knowledge st) \<Longrightarrow>
   consistent board (fold (\<lambda>i s. infer_sentence s i) is st) \<and>
   height (fold (\<lambda>i s. infer_sentence s i) is st) = height st \<and>
   width (fold (\<lambda>i s. infer_sentence s i) is st) = width st"
  by (induction "is" arbitrary: st) (simp_all add: consistent_infer_sentence infer_sentence_frame)

lemma consistent_infer_cells:
  "consistent board st \<Longrightarrow> consistent board (infer_cells st) \<and>
   height (infer_cells st) = height st \<and> width (infer_cells st) = width st"
  unfolding infer_cells_def by (rule fold_infer_sentence) simp_all

lemma consistent_remove_empty:
  "consistent board st \<Longrightarrow> consistent board (remove_empty st)"
  by (simp add: consistent_def remove_empty_def list_all_iff)

text \<open>
  The difference of two true sentences is true, so the pairwise step keeps the knowledge
  base in agreement with the board.
\<close>

lemma true_sentence_difference:
  assumes "true_sentence board s1" and "true_sentence board s2" and "cells s1 \<subseteq> cells s2"
  shows "true_sentence board \<lparr>cells = cells s2 - cells s1, count = count s2 - count s1\<rparr>"
proof -
  have fin: "finite (cells s1 \<inter> board)" "finite (cells s2 \<inter> board)"
    using assms(1,2) by (simp_all add: true_sentence_def)
  have sub: "cells s1 \<inter> board \<subseteq> cells s2 \<inter> board"
    using assms(3) by blast
  have eq: "(cells s2 - cells s1) \<inter> board = (cells s2 \<inter> board) - (cells s1 \<inter> board)"
    by blast
  have "card ((cells s2 - cells s1) \<inter> board) = card (cells s2 \<inter> board) - card (cells s1 \<inter> board)"
    unfolding eq using fin(1) sub by (rule card_Diff_subset)
  moreover have "card (cells s1 \<inter> board) \<le> card (cells s2 \<inter> board)"
    using fin(2) sub by (rule card_mono)
  ultimately have "int (card ((cells s2 - cells s1) \<inter> board)) =
      int (card (cells s2 \<inter> board)) - int (card (cells s1 \<inter> board))"
    by simp
  then show ?thesis
    using assms(1,2) by (simp add: true_sentence_def)
qed

lemma fold_subset_step_true:
  "\<forall>p\<in>set ps. true_sentence board (snd (fst p)) \<and> true_sentence board (snd (snd p)) \<Longrightarrow>
   list_all (true_sentence board) (fst acc) \<Longrightarrow>
   list_all (true_sentence board) (fst (fold subset_step ps acc))"
proof (induction ps arbitrary: acc)
  case Nil
  then show ?case by simp
next
  case (Cons p ps)
  have "list_all (true_sentence board) (fst (subset_step p acc))"
    using Cons.prems by (simp add: subset_step_def Let_def true_sentence_difference)
  with Cons show ?case by simp
qed

lemma enumerate_true:
  assumes "list_all (true_sentence board) xs" and "p \<in> set (enumerate n xs)"
  shows "true_sentence board (snd p)"
proof -
  have "fst p - n < length xs" and "xs ! (fst p - n) = snd p"
    using assms(2) by (auto simp: in_set_enumerate_eq)
  then have "snd p \<in> set xs"
    by (metis nth_mem)
  with assms(1) show ?thesis
    by (simp add: list_all_iff)
qed

lemma infer_subsets_frame:
  "mines (fst (infer_subsets st)) = mines st \<and> safes (fst (infer_subsets st)) = safes st \<and>
   moves_made (fst (infer_subsets st)) = moves_made st \<and>
   height (fst (infer_subsets st)) = height st \<and> width (fst (infer_subsets st)) = width st"
  by (simp add: infer_subsets_def Let_def)

lemma consistent_infer_subsets:
  assumes "consistent board st"
  shows "consistent board (fst (infer_subsets st))"
proof -
  have k: "list_all (true_sentence board) (knowledge st)"
    using assms by (simp add: consistent_def)
  let ?kc = "enumerate 0 (knowledge st)"
  have "list_all (true_sentence board)
          (fst (fold subset_step (List.product ?kc ?kc) (knowledge st, False)))"
    using k by (intro fold_subset_step_true) (auto intro: enumerate_true)
  then show ?thesis
    using assms by (simp add: consistent_def infer_subsets_def Let_def)
qed

lemma consistent_closure_pass:
  assumes "consistent board st"
  shows "consistent board (fst (closure_pass st)) \<and>
         height (fst (closure_pass st)) = height st \<and> width (fst (closure_pass st)) = width st"
proof -
  have "consistent board (remove_empty (infer_cells st))"
    using assms by (simp add: consistent_infer_cells consistent_remove_empty)
  then show ?thesis
    using assms
    by (simp add: closure_pass_def consistent_infer_subsets infer_subsets_frame
        consistent_infer_cells remove_empty_def)
qed

lemma distinct_nearby_range: "distinct (nearby_range c)"
proof -
  have "nearby_range c = List.product [fst c - 1 .. fst c + 1] [snd c - 1 .. snd c + 1]"
    by (simp add: nearby_range_def product_concat_map)
  then show ?thesis
    by (simp add: distinct_product)
qed

lemma fold_nearby_step_finite:
  "finite (fst acc) \<Longrightarrow> finite (fst (fold (nearby_step st c) xs acc))"
  by (induction xs arbitrary: acc) (simp_all add: nearby_step_def)

lemma fold_nearby_step_count:
  assumes "mines st \<subseteq> board" and "moves_made st \<inter> board = {}"
  shows "distinct xs \<Longrightarrow> finite (fst acc) \<Longrightarrow> fst acc \<inter> set xs = {} \<Longrightarrow>
    snd (fold (nearby_step st c) xs acc)
      - int (card (fst (fold (nearby_step st c) xs acc) \<inter> board))
      + fold (nearby_mines_step (height st) (width st) board c) xs k
    = snd acc - int (card (fst acc \<inter> board)) + k"
proof (induction xs arbitrary: acc k)
  case Nil
  then show ?case by simp
next
  case (Cons x xs)
  let ?acc = "nearby_step st c x acc"
  let ?k = "nearby_mines_step (height st) (width st) board c x k"
  have xnew: "x \<notin> fst acc"
    using Cons.prems(3) by auto
  have fin: "finite (fst ?acc)"
    using Cons.prems(2) by (simp add: nearby_step_def)
  have disj: "fst ?acc \<inter> set xs = {}"
    using Cons.prems(1,3) by (auto simp: nearby_step_def split: if_splits)
  have step: "snd ?acc - int (card (fst ?acc \<inter> board)) + ?k
      = snd acc - int (card (fst acc \<inter> board)) + k"
    using assms xnew Cons.prems(2)
    by (auto simp: nearby_step_def nearby_mines_step_def)
  have "snd (fold (nearby_step st c) xs ?acc)
      - int (card (fst (fold (nearby_step st c) xs ?acc) \<inter> board))
      + fold (nearby_mines_step (height st) (width st) board c) xs ?k
    = snd ?acc - int (card (fst ?acc \<inter> board)) + ?k"
    using Cons.prems(1) fin disj by (intro Cons.IH) simp_all
  with step show ?case by simp
qed


lemma observe_frame:
  "height (observe st c n) = height st \<and> width (observe st c n) = width st"
  by (simp add: observe_def add_sentence_def mark_safe_def Let_def)

lemma consistent_add_sentence:
  "consistent board st \<Longrightarrow> true_sentence board \<lparr>cells = fst acc, count = snd acc\<rparr> \<Longrightarrow>
   consistent board (add_sentence st acc)"
  by (simp add: consistent_def add_sentence_def Let_def)

lemma consistent_observe:
  assumes "consistent board st" and "c \<notin> board"
    and "n = nearby_mines (height st) (width st) board c"
  shows "consistent board (observe st c n)"
proof -
  let ?st2 = "mark_safe (st\<lparr>moves_made := insert c (moves_made st)\<rparr>) c"
  let ?acc = "fold (nearby_step ?st2 c) (nearby_range c) ({}, n)"
  have "consistent board (st\<lparr>moves_made := insert c (moves_made st)\<rparr>)"
    using assms(1,2) by (simp add: consistent_def)
  then have c2: "consistent board ?st2"
    using assms(2) by (rule consistent_mark_safe)
  have hw: "height ?st2 = height st" "width ?st2 = width st"
    by (simp_all add: mark_safe_def)
  have "snd ?acc - int (card (fst ?acc \<inter> board))
        + fold (nearby_mines_step (height ?st2) (width ?st2) board c) (nearby_range c) 0
      = snd ({}::cell set, n) - int (card (fst ({}::cell set, n) \<inter> board)) + 0"
    using c2
    by (intro fold_nearby_step_count [where acc = "({}, n)" and k = 0])
      (simp_all add: consistent_def distinct_nearby_range)
  then have "snd ?acc = int (card (fst ?acc \<inter> board))"
    using assms(3) by (simp add: hw nearby_mines_def)
  moreover have "finite (fst ?acc)"
    by (rule fold_nearby_step_finite) simp
  ultimately have "true_sentence board \<lparr>cells = fst ?acc, count = snd ?acc\<rparr>"
    by (simp add: true_sentence_def)
  with c2 have "consistent board (add_sentence ?st2 ?acc)"
    by (rule consistent_add_sentence)
  then show ?thesis
    by (simp add: observe_def Let_def)
qed

lemma consistent_apply_call:
  assumes "consistent board st" and "truthful (height st) (width st) board x"
  shows "\<exists>st'. apply_call st x = Some st' \<and> consistent board st' \<and>
           height st' = height st \<and> width st' = width st"
proof (cases x)
  case (RecordObservation c n)
  with assms have "consistent board (observe st c n)"
    by (simp add: consistent_observe)
  then show ?thesis
    using RecordObservation
    by (simp add: add_knowledge_returns consistent_closure_pass observe_frame)
next
  case (DeclareSafe c)
  with assms show ?thesis
    by (simp add: consistent_mark_safe) (simp add: mark_safe_def)
next
  case (DeclareMine c)
  with assms show ?thesis
    by (simp add: consistent_mark_mine) (simp add: mark_mine_def)
qed

lemma consistent_run:
  "consistent board st \<Longrightarrow> list_all (truthful (height st) (width st) board) calls \<Longrightarrow>
   \<exists>st'. run st calls = Some st' \<and> consistent board st'"
proof (induction calls arbitrary: st)
  case Nil
  then show ?case by simp
next
  case (Cons x xs)
  from Cons.prems obtain st1 where st1: "apply_call st x = Some st1" "consistent board st1"
      "height st1 = height st" "width st1 = width st"
    using consistent_apply_call [of board st x] by auto
  with Cons.prems have "\<exists>st'. run st1 xs = Some st' \<and> consistent board st'"
    by (intro Cons.IH) simp_all
  with st1 show ?case by simp
qed

lemma consistent_init: "consistent board (init_ai h w)"
  by (simp add: consistent_def init_ai_def)

lemma true_sentence_count_range:
  assumes "true_sentence board s"
  shows "0 \<le> count s \<and> count s \<le> int (card (cells s))"
proof -
  have "card (cells s \<inter> board) \<le> card (cells s)"
    using assms by (intro card_mono) (simp_all add: true_sentence_def)
  then show ?thesis
    using assms by (simp add: true_sentence_def)
qed

lemma consistent_disjoint: "consistent board st \<Longrightarrow> safes st \<inter> mines st = {}"
  by (auto simp: consistent_def)

text \<open>
  Claim C7, as amended. The claim is made for every sequence of calls, and the code has
  no guard on the counts, so it fails on calls that contradict each other. For the
  sequences of calls that agree with one board (each observation is made on a cell
  without a mine and reports the mines the board has around it, \<open>DeclareSafe\<close> names a
  cell without a mine, \<open>DeclareMine\<close> a cell with one), every call returns and, after
  the sequence (hence after each of its calls, a prefix being such a sequence too),
  every sentence of the knowledge base has \<open>0 \<le> count \<le> |cells|\<close>.
\<close>

theorem truthful_calls_count_in_range:
  assumes "list_all (truthful h w board) calls"
  shows "\<exists>st'. run (init_ai h w) calls = Some st' \<and>
           list_all (\<lambda>s. 0 \<le> count s \<and> count s \<le> int (card (cells s))) (knowledge st')"
proof -
  have "list_all (truthful (height (init_ai h w)) (width (init_ai h w)) board) calls"
    using assms by (simp add: init_ai_def)
  with consistent_init obtain st' where
    st': "run (init_ai h w) calls = Some st'" "consistent board st'"
    using consistent_run by blast
  then have "list_all (\<lambda>s. 0 \<le> count s \<and> count s \<le> int (card (cells s))) (knowledge st')"
    by (auto simp: consistent_def list_all_iff dest: true_sentence_count_range)
  with st'(1) show ?thesis by blast
qed

theorem truthful_calls_count_in_range_witness:
  "list_all (truthful 2 3 {(0, 0), (0, 2), (1, 2)})
     [DeclareMine (1, 2), RecordObservation (1, 0) 1, RecordObservation (1, 1) 3] \<and>
   (\<exists>st'. run (init_ai 2 3)
            [DeclareMine (1, 2), RecordObservation (1, 0) 1, RecordObservation (1, 1) 3] = Some st' \<and>
          list_all (\<lambda>s. 0 \<le> count s \<and> count s \<le> int (card (cells s))) (knowledge st'))"
proof -
  have h: "list_all (truthful 2 3 {(0, 0), (0, 2), (1, 2)})
     [DeclareMine (1, 2), RecordObservation (1, 0) 1, RecordObservation (1, 1) 3]"
    by code_simp
  from h truthful_calls_count_in_range [OF h] show ?thesis
    by (rule conjI)
qed

text \<open>
  Claim C7 as stated fails. On a grid of 3 by 3, the observation of 2 mines around
  \<open>(0, 0)\<close> and then of 1 mine around \<open>(0, 1)\<close> makes \<open>(1, 0)\<close> and \<open>(1, 1)\<close> known mines
  and leaves the sentence \<open>{(0, 2), (1, 2)} = -1\<close> in the knowledge base.
\<close>

theorem count_out_of_range_counterexample:
  "run (init_ai 3 3) [RecordObservation (0, 0) 2, RecordObservation (0, 1) 1] =
     Some \<lparr>height = 3, width = 3, moves_made = {(0, 0), (0, 1)}, mines = {(1, 0), (1, 1)},
           safes = {(0, 0), (0, 1)},
           knowledge = [\<lparr>cells = {(0, 2), (1, 2)}, count = - 1\<rparr>]\<rparr>"
  by (simp only: run.simps apply_call.simps add_knowledge_returns option.case option.map)
    code_simp

text \<open>
  Claim C8, as amended. The claim is made for every sequence of calls, and neither
  \<open>mark_safe\<close> nor \<open>mark_mine\<close> looks at the other set, so it fails when a cell is
  declared both ways. For the sequences of calls that agree with one
  board, every call returns and, after the sequence (hence after each of its calls), no
  cell is both in \<open>safes\<close> and in \<open>mines\<close>.
\<close>

theorem truthful_calls_safes_mines_disjoint:
  assumes "list_all (truthful h w board) calls"
  shows "\<exists>st'. run (init_ai h w) calls = Some st' \<and> safes st' \<inter> mines st' = {}"
proof -
  have "list_all (truthful (height (init_ai h w)) (width (init_ai h w)) board) calls"
    using assms by (simp add: init_ai_def)
  with consistent_init obtain st' where
    st': "run (init_ai h w) calls = Some st'" "consistent board st'"
    using consistent_run by blast
  then have "safes st' \<inter> mines st' = {}"
    by (simp add: consistent_disjoint)
  with st'(1) show ?thesis by blast
qed

theorem truthful_calls_safes_mines_disjoint_witness:
  "list_all (truthful 2 6 {(0, 0), (0, 2), (1, 2)})
     [DeclareMine (1, 2), RecordObservation (1, 0) 1, RecordObservation (1, 1) 3,
      RecordObservation (1, 5) 0] \<and>
   (\<exists>st'. run (init_ai 2 6)
            [DeclareMine (1, 2), RecordObservation (1, 0) 1, RecordObservation (1, 1) 3,
             RecordObservation (1, 5) 0] = Some st' \<and>
          safes st' \<inter> mines st' = {})"
proof -
  have h: "list_all (truthful 2 6 {(0, 0), (0, 2), (1, 2)})
     [DeclareMine (1, 2), RecordObservation (1, 0) 1, RecordObservation (1, 1) 3,
      RecordObservation (1, 5) 0]"
    by code_simp
  from h truthful_calls_safes_mines_disjoint [OF h] show ?thesis
    by (rule conjI)
qed

text \<open>
  Claim C8 as stated fails: a cell declared safe and then declared a mine is in both
  sets.
\<close>

theorem safe_and_mine_counterexample:
  "run (init_ai 3 3) [DeclareSafe (0, 0), DeclareMine (0, 0)] =
     Some \<lparr>height = 3, width = 3, moves_made = {}, mines = {(0, 0)}, safes = {(0, 0)},
           knowledge = []\<rparr>"
  by (simp only: run.simps apply_call.simps option.case) code_simp

end
